theory Spec2Isabelle
  imports Main
begin

section \<open>Paths\<close>

text \<open>
  The program handles files as \<^verbatim>\<open>pathlib.Path\<close> values and uses four of their
  operations: \<^verbatim>\<open>name\<close>, \<^verbatim>\<open>stem\<close>, \<^verbatim>\<open>parent\<close>, the \<^verbatim>\<open>/\<close> operator and
  \<^verbatim>\<open>str\<close>. A path is its anchor (empty for a relative path, \<^verbatim>\<open>/\<close> for an absolute
  one) and its components, each a non-empty string without a slash. Strings are byte
  strings (UTF-8); the program only concatenates and compares them and searches for the
  ASCII dot, so bytes and code points agree on everything used here.
\<close>

record path =
  anchor :: string
  segments :: "string list"

definition name :: "path \<Rightarrow> string" where
  "name p = (if segments p = [] then [] else last (segments p))"

definition parent :: "path \<Rightarrow> path" where
  "parent p = (if segments p = [] then p else p\<lparr>segments := butlast (segments p)\<rparr>)"

text \<open>\<^verbatim>\<open>str.rfind\<close>: the index of the last occurrence, \<open>None\<close> for Python's \<open>-1\<close>.\<close>

fun rfind :: "'a \<Rightarrow> 'a list \<Rightarrow> nat option" where
  "rfind c [] = None"
| "rfind c (x # xs) =
     (case rfind c xs of
        Some i \<Rightarrow> Some (Suc i)
      | None \<Rightarrow> if x = c then Some 0 else None)"

text \<open>
  \<^verbatim>\<open>stem\<close> as pathlib computes it (CPython up to 3.13): the name without its last
  suffix; a leading dot or a trailing dot starts no suffix.
\<close>

definition stem :: "path \<Rightarrow> string" where
  "stem p =
     (let n = name p in
      case rfind (CHR ''.'') n of
        None \<Rightarrow> n
      | Some i \<Rightarrow> if 0 < i \<and> Suc i < length n then take i n else n)"

text \<open>
  \<^verbatim>\<open>p / s\<close> for a string \<open>s\<close> that is one component. The only right operand in the
  program is \<^verbatim>\<open>f"{input_file.stem}_processed.mp3"\<close>, which is never empty and has a
  slash only if the file name had one, which no \<^verbatim>\<open>Path\<close> has.
\<close>

definition joinpath :: "path \<Rightarrow> string \<Rightarrow> path" where
  "joinpath p s = p\<lparr>segments := segments p @ [s]\<rparr>"

fun join_slash :: "string list \<Rightarrow> string" where
  "join_slash [] = []"
| "join_slash [s] = s"
| "join_slash (s # t # ss) = s @ ''/'' @ join_slash (t # ss)"

definition str :: "path \<Rightarrow> string" where
  "str p = (if anchor p = [] \<and> segments p = [] then ''.''
            else anchor p @ join_slash (segments p))"


section \<open>The worker and what it can observe\<close>

text \<open>\<^verbatim>\<open>ProcessingWorker.__init__\<close>: the snapshot of the queue, the optional output
  folder and the script. The fourth attribute, \<^verbatim>\<open>_cancelled\<close>, is written by another
  thread (\<^verbatim>\<open>cancel\<close>); the worker only reads it, so it is part of the environment.\<close>

record worker =
  files :: "path list"
  output_folder :: "path option"
  script_path :: path

text \<open>What \<^verbatim>\<open>subprocess.run(..., capture_output=True, text=True, timeout=600)\<close>
  does: it returns a completed process (return code, stdout, stderr), raises
  \<^verbatim>\<open>subprocess.TimeoutExpired\<close>, or raises another \<^verbatim>\<open>Exception\<close>, kept as its
  \<^verbatim>\<open>str\<close>.\<close>

datatype run_result =
    Completed int string string
  | TimeoutExpired
  | Raised string

text \<open>
  The environment of one run: the value of \<^verbatim>\<open>self._cancelled\<close> read at the top of
  iteration \<open>i\<close>, and the result of the call of \<^verbatim>\<open>subprocess.run\<close> made in iteration
  \<open>i\<close> with the given argument vector and timeout.
\<close>

record environment =
  cancelled :: "nat \<Rightarrow> bool"
  subprocess_run :: "nat \<Rightarrow> string list \<Rightarrow> nat \<Rightarrow> run_result"

text \<open>The four signals of the worker, and the call of the external process.\<close>

datatype effect =
    Progress int int string
  | FileComplete string bool string
  | AllComplete int int
  | LogMessage string
  | SubprocessRun "string list" nat

record run_state =
  successful :: int
  failed :: int
  trace :: "effect list"

definition emit :: "effect list \<Rightarrow> run_state \<Rightarrow> run_state" where
  "emit es st = st\<lparr>trace := trace st @ es\<rparr>"

definition cross_mark :: string where
  "cross_mark = [CHR 0xE2, CHR 0x9D, CHR 0x8C]"

definition warning_sign :: string where
  "warning_sign = [CHR 0xE2, CHR 0x9A, CHR 0xA0, CHR 0xEF, CHR 0xB8, CHR 0x8F]"

definition rule60 :: string where
  "rule60 = replicate 60 (CHR ''='')"


section \<open>\<^verbatim>\<open>ProcessingWorker.run\<close>\<close>

definition output_path :: "worker \<Rightarrow> path \<Rightarrow> path" where
  "output_path w input_file =
     (let output_name = stem input_file @ ''_processed.mp3'' in
      case output_folder w of
        Some d \<Rightarrow> joinpath d output_name
      | None \<Rightarrow> joinpath (parent input_file) output_name)"

definition argv :: "worker \<Rightarrow> path \<Rightarrow> string list" where
  "argv w input_file = [str (script_path w), str input_file, str (output_path w input_file)]"

text \<open>The \<^verbatim>\<open>try\<close> statement: the branches on the return code and the two handlers.\<close>

definition handle_result :: "string \<Rightarrow> run_result \<Rightarrow> run_state \<Rightarrow> run_state" where
  "handle_result filename r st =
     (case r of
        Completed returncode out err \<Rightarrow>
          if returncode = 0 then
            emit [FileComplete filename True ''Success'', LogMessage out]
              (st\<lparr>successful := successful st + 1\<rparr>)
          else
            (let error_msg = (if err = [] then ''Unknown error'' else err) in
             emit [FileComplete filename False error_msg,
                   LogMessage (cross_mark @ '' Error: '' @ error_msg)]
               (st\<lparr>failed := failed st + 1\<rparr>))
      | TimeoutExpired \<Rightarrow>
          emit [FileComplete filename False ''Timeout (>10 min)'',
                LogMessage (cross_mark @ '' Error: Processing timeout exceeded'')]
            (st\<lparr>failed := failed st + 1\<rparr>)
      | Raised e \<Rightarrow>
          emit [FileComplete filename False e,
                LogMessage (cross_mark @ '' Error: '' @ e)]
            (st\<lparr>failed := failed st + 1\<rparr>))"

text \<open>The body of the loop after the cancellation test, for item \<open>i\<close>.\<close>

definition process_file ::
  "environment \<Rightarrow> worker \<Rightarrow> int \<Rightarrow> nat \<Rightarrow> path \<Rightarrow> run_state \<Rightarrow> run_state" where
  "process_file env w totalN i input_file st =
     (let st1 = emit [Progress (int i) totalN (''Processing: '' @ name input_file),
                      LogMessage (CHR 0x0A # rule60),
                      LogMessage (''Processing: '' @ name input_file),
                      LogMessage (''Output: '' @ str (output_path w input_file)),
                      LogMessage (rule60 @ [CHR 0x0A]),
                      SubprocessRun (argv w input_file) 600] st
      in handle_result (name input_file)
           (subprocess_run env i (argv w input_file) 600) st1)"

text \<open>The \<^verbatim>\<open>for\<close> loop over \<^verbatim>\<open>enumerate(self.files)\<close>, from index \<open>i\<close> on.\<close>

fun run_loop ::
  "environment \<Rightarrow> worker \<Rightarrow> int \<Rightarrow> nat \<Rightarrow> path list \<Rightarrow> run_state \<Rightarrow> run_state" where
  "run_loop env w totalN i [] st = st"
| "run_loop env w totalN i (input_file # rest) st =
     (if cancelled env i then
        emit [LogMessage (CHR 0x0A # warning_sign @ ''  Processing cancelled by user'')] st
      else run_loop env w totalN (Suc i) rest (process_file env w totalN i input_file st))"

definition run :: "environment \<Rightarrow> worker \<Rightarrow> run_state" where
  "run env w =
     (let totalN = int (length (files w));
          st = run_loop env w totalN 0 (files w) \<lparr>successful = 0, failed = 0, trace = []\<rparr>
      in emit [Progress totalN totalN ''Complete'',
               AllComplete (successful st) (failed st)] st)"


section \<open>The queue of the main window\<close>

text \<open>\<^verbatim>\<open>MainWindow.add_files\<close> and \<^verbatim>\<open>MainWindow.remove_selected\<close>, on
  \<^verbatim>\<open>files_to_process\<close>. \<^verbatim>\<open>list.remove\<close> deletes the first occurrence.\<close>

definition add_files :: "path list \<Rightarrow> path list \<Rightarrow> path list" where
  "add_files files_to_process fs =
     foldl (\<lambda>q file_path. if file_path \<in> set q then q else q @ [file_path])
       files_to_process fs"

definition remove_selected :: "path list \<Rightarrow> path list \<Rightarrow> path list" where
  "remove_selected files_to_process selected =
     foldl (\<lambda>q file_path. if file_path \<in> set q then remove1 file_path q else q)
       files_to_process selected"

text \<open>
  \<^verbatim>\<open>MainWindow.start_processing\<close> up to the creation of the worker. The window state
  it reads, and what the file system answers to its three questions, in the order in
  which they are asked: does the output folder exist, does \<^verbatim>\<open>mkdir(parents=True)\<close>
  raise (and with which text), does the script exist. \<^verbatim>\<open>Path.exists()\<close> answers
  true or false, or raises \<^verbatim>\<open>OSError\<close> (permission denied on a parent directory, a
  name that is too long). Both calls of \<^verbatim>\<open>exists\<close> stand outside the \<^verbatim>\<open>try\<close>
  statement, so such an exception leaves \<^verbatim>\<open>start_processing\<close>: no dialog is shown
  and no worker is created.
\<close>

record main_window =
  files_to_process :: "path list"
  use_custom_output :: bool
  output_folder_edit :: path
  window_script_path :: path

datatype exists_result =
    Exists
  | Missing
  | ExistsRaised string

record file_system =
  output_folder_exists :: exists_result
  mkdir_error :: "string option"
  script_exists :: exists_result

datatype not_started =
    NothingToProcess
  | CannotCreateOutputFolder string
  | ScriptNotFound
  | Unhandled string

text \<open>The validation of the output folder: \<open>None\<close> when it passes or is not asked for,
  the reason why the run is not started otherwise.\<close>

definition check_output_folder :: "file_system \<Rightarrow> main_window \<Rightarrow> not_started option" where
  "check_output_folder fsys win =
     (if use_custom_output win then
        (case output_folder_exists fsys of
           ExistsRaised e \<Rightarrow> Some (Unhandled e)
         | Exists \<Rightarrow> None
         | Missing \<Rightarrow>
             (case mkdir_error fsys of
                Some e \<Rightarrow> Some (CannotCreateOutputFolder e)
              | None \<Rightarrow> None))
      else None)"

definition start_processing :: "file_system \<Rightarrow> main_window \<Rightarrow> not_started + worker" where
  "start_processing fsys win =
     (if files_to_process win = [] then Inl NothingToProcess
      else
        (case check_output_folder fsys win of
           Some reason \<Rightarrow> Inl reason
         | None \<Rightarrow>
             (case script_exists fsys of
                ExistsRaised e \<Rightarrow> Inl (Unhandled e)
              | Missing \<Rightarrow> Inl ScriptNotFound
              | Exists \<Rightarrow>
                  Inr \<lparr>files = files_to_process win,
                       output_folder = (if use_custom_output win
                                        then Some (output_folder_edit win) else None),
                       script_path = window_script_path win\<rparr>)))"

text \<open>What a click on the button makes the worker do: nothing when the run is not
  started, the run of the worker otherwise.\<close>

definition click_process :: "file_system \<Rightarrow> environment \<Rightarrow> main_window \<Rightarrow> effect list" where
  "click_process fsys env win =
     (case start_processing fsys win of
        Inl _ \<Rightarrow> []
      | Inr w \<Rightarrow> trace (run env w))"


section \<open>Reading a trace\<close>

definition invocations :: "effect list \<Rightarrow> (string list \<times> nat) list" where
  "invocations tr =
     List.map_filter (\<lambda>e. case e of SubprocessRun a t \<Rightarrow> Some (a, t) | _ \<Rightarrow> None) tr"

definition completions :: "effect list \<Rightarrow> (string \<times> bool \<times> string) list" where
  "completions tr =
     List.map_filter (\<lambda>e. case e of FileComplete f ok m \<Rightarrow> Some (f, ok, m) | _ \<Rightarrow> None) tr"

definition progresses :: "effect list \<Rightarrow> (int \<times> int \<times> string) list" where
  "progresses tr =
     List.map_filter (\<lambda>e. case e of Progress c t m \<Rightarrow> Some (c, t, m) | _ \<Rightarrow> None) tr"

definition summaries :: "effect list \<Rightarrow> (int \<times> int) list" where
  "summaries tr =
     List.map_filter (\<lambda>e. case e of AllComplete s f \<Rightarrow> Some (s, f) | _ \<Rightarrow> None) tr"

text \<open>The number of per-item notifications with the success flag set, and with it unset.\<close>

definition count_ok :: "effect list \<Rightarrow> nat" where
  "count_ok tr = length (filter (\<lambda>(f, ok, m). ok) (completions tr))"

definition count_failed :: "effect list \<Rightarrow> nat" where
  "count_failed tr = length (filter (\<lambda>(f, ok, m). \<not> ok) (completions tr))"

text \<open>The progress notifications and the calls of the external process, in the order
  of the trace.\<close>

definition milestones :: "effect list \<Rightarrow> effect list" where
  "milestones tr =
     filter (\<lambda>e. case e of Progress c t m \<Rightarrow> True | SubprocessRun a t \<Rightarrow> True | _ \<Rightarrow> False) tr"


section \<open>Auxiliary notions for the statements\<close>

text \<open>The number of iterations, counted from index \<open>i\<close> with \<open>n\<close> items left, that
  read the cancellation flag as unset before the first one that reads it as set.\<close>

definition reach :: "environment \<Rightarrow> nat \<Rightarrow> nat \<Rightarrow> nat" where
  "reach env i n = length (takeWhile (\<lambda>j. \<not> cancelled env j) [i..<i + n])"

text \<open>What one iteration appends to the trace.\<close>

definition item_effects :: "environment \<Rightarrow> worker \<Rightarrow> int \<Rightarrow> nat \<Rightarrow> path \<Rightarrow> effect list" where
  "item_effects env w totalN i input_file =
     trace (process_file env w totalN i input_file \<lparr>successful = 0, failed = 0, trace = []\<rparr>)"

definition cancel_log :: effect where
  "cancel_log = LogMessage (CHR 0x0A # warning_sign @ ''  Processing cancelled by user'')"

text \<open>The arguments of the per-item notification that the \<^verbatim>\<open>try\<close> statement emits.\<close>

definition notified :: "string \<Rightarrow> run_result \<Rightarrow> string \<times> bool \<times> string" where
  "notified fn r =
     hd (completions (trace (handle_result fn r \<lparr>successful = 0, failed = 0, trace = []\<rparr>)))"

text \<open>The counters agree with the notifications emitted so far.\<close>

definition counted :: "run_state \<Rightarrow> bool" where
  "counted st = (successful st = int (count_ok (trace st)) \<and> failed st = int (count_failed (trace st)))"


section \<open>Example values\<close>

definition a_wav :: path where
  "a_wav = \<lparr>anchor = ''/'', segments = [''home'', ''u'', ''a.wav'']\<rparr>"

definition b_mp3 :: path where
  "b_mp3 = \<lparr>anchor = ''/'', segments = [''home'', ''u'', ''b.mp3'']\<rparr>"

definition c_tar_gz :: path where
  "c_tar_gz = \<lparr>anchor = ''/'', segments = [''data'', ''c.tar.gz'']\<rparr>"

definition d_flac :: path where
  "d_flac = \<lparr>anchor = ''/'', segments = [''data'', ''d.flac'']\<rparr>"

definition script :: path where
  "script = \<lparr>anchor = ''/'', segments = [''opt'', ''process_audio.sh'']\<rparr>"

definition out_dir :: path where
  "out_dir = \<lparr>anchor = ''/'', segments = [''out'']\<rparr>"

definition worker4 :: worker where
  "worker4 = \<lparr>files = [a_wav, b_mp3, c_tar_gz, d_flac], output_folder = None,
              script_path = script\<rparr>"

definition worker2 :: worker where
  "worker2 = \<lparr>files = [a_wav, b_mp3], output_folder = Some out_dir, script_path = script\<rparr>"

text \<open>An environment in which nobody cancels and the four calls end in the four
  possible ways; the same with the flag set from the top of the third iteration on.\<close>

definition results4 :: "nat \<Rightarrow> string list \<Rightarrow> nat \<Rightarrow> run_result" where
  "results4 i a t =
     (if i = 0 then Completed 0 ''done'' []
      else if i = 1 then Completed 1 [] ''bad codec''
      else if i = 2 then TimeoutExpired
      else Raised ''[Errno 13] Permission denied'')"

definition env4 :: environment where
  "env4 = \<lparr>cancelled = (\<lambda>i. False), subprocess_run = results4\<rparr>"

definition env_cancel_at_2 :: environment where
  "env_cancel_at_2 = \<lparr>cancelled = (\<lambda>i. 2 \<le> i), subprocess_run = results4\<rparr>"

text \<open>Two environments in which nobody cancels: in one every call runs into the
  timeout, in the other every call exits with code 1 and the text of the timeout message
  on stderr.\<close>

definition env_all_timeout :: environment where
  "env_all_timeout = \<lparr>cancelled = (\<lambda>i. False), subprocess_run = (\<lambda>i a t. TimeoutExpired)\<rparr>"

definition env_all_exit1 :: environment where
  "env_all_exit1 =
     \<lparr>cancelled = (\<lambda>i. False),
      subprocess_run = (\<lambda>i a t. Completed 1 [] ''Timeout (>10 min)'')\<rparr>"

text \<open>A window with two queued files and a custom output folder; a file system on which
  the folder can be created and the script exists, one on which the folder cannot be
  created, and one on which asking for the folder raises.\<close>

definition window_ok :: main_window where
  "window_ok = \<lparr>files_to_process = [a_wav, b_mp3], use_custom_output = True,
                output_folder_edit = out_dir, window_script_path = script\<rparr>"

definition fs_ok :: file_system where
  "fs_ok = \<lparr>output_folder_exists = Missing, mkdir_error = None, script_exists = Exists\<rparr>"

definition fs_readonly :: file_system where
  "fs_readonly = \<lparr>output_folder_exists = Missing,
                  mkdir_error = Some ''[Errno 30] Read-only file system'',
                  script_exists = Exists\<rparr>"

definition fs_denied :: file_system where
  "fs_denied = \<lparr>output_folder_exists = ExistsRaised ''[Errno 13] Permission denied'',
                mkdir_error = None, script_exists = Exists\<rparr>"


section \<open>Basic facts\<close>

lemma trace_emit [simp]: "trace (emit es st) = trace st @ es"
  by (simp add: emit_def)

lemma successful_emit [simp]: "successful (emit es st) = successful st"
  by (simp add: emit_def)

lemma failed_emit [simp]: "failed (emit es st) = failed st"
  by (simp add: emit_def)


subsection \<open>The cancellation flag and the loop\<close>

lemma reach_0 [simp]: "reach env i 0 = 0"
  by (simp add: reach_def)

lemma reach_Suc: "reach env i (Suc n) = (if cancelled env i then 0 else Suc (reach env (Suc i) n))"
  by (simp add: reach_def upt_rec)

lemma reach_le: "reach env i n \<le> n"
  unfolding reach_def by (rule order_trans[OF length_takeWhile_le]) simp

lemma reach_all: "(\<forall>j<n. \<not> cancelled env (i + j)) \<Longrightarrow> reach env i n = n"
proof (induction n arbitrary: i)
  case 0
  show ?case by simp
next
  case (Suc n)
  have "\<not> cancelled env i" using Suc.prems[rule_format, of 0] by simp
  moreover have "\<forall>j<n. \<not> cancelled env (Suc i + j)"
    using Suc.prems by (metis Suc_less_eq add_Suc_right add_Suc)
  ultimately show ?case by (simp add: reach_Suc Suc.IH)
qed

lemma reach_first:
  "k < n \<Longrightarrow> cancelled env (i + k) \<Longrightarrow> (\<forall>j<k. \<not> cancelled env (i + j)) \<Longrightarrow> reach env i n = k"
proof (induction n arbitrary: i k)
  case 0
  then show ?case by simp
next
  case (Suc n)
  show ?case
  proof (cases k)
    case 0
    with Suc.prems show ?thesis by (simp add: reach_Suc)
  next
    case (Suc k')
    have a: "\<not> cancelled env i" using Suc.prems(3)[rule_format, of 0] Suc by simp
    have b: "\<forall>j<k'. \<not> cancelled env (Suc i + j)"
      using Suc.prems(3) Suc by (metis Suc_less_eq add_Suc_right add_Suc)
    have "reach env (Suc i) n = k'"
      using Suc.prems(1,2) Suc b by (intro Suc.IH) simp_all
    with a Suc show ?thesis by (simp add: reach_Suc)
  qed
qed

lemma trace_handle_result:
  "trace (handle_result fn r st) = trace st @ trace (handle_result fn r \<lparr>successful = 0, failed = 0, trace = []\<rparr>)"
  by (simp add: handle_result_def Let_def split: run_result.split)

lemma trace_process_file:
  "trace (process_file env w t i f st) = trace st @ item_effects env w t i f"
  unfolding item_effects_def process_file_def Let_def
  by (subst trace_handle_result, simp) (subst (2) trace_handle_result, simp)

lemma trace_run_loop:
  "trace (run_loop env w t i fs st) =
     trace st
     @ concat (map (\<lambda>(j, f). item_effects env w t j f)
         (zip [i..<i + reach env i (length fs)] (take (reach env i (length fs)) fs)))
     @ (if reach env i (length fs) < length fs then [cancel_log] else [])"
proof (induction fs arbitrary: i st)
  case Nil
  then show ?case by simp
next
  case (Cons f fs)
  show ?case
  proof (cases "cancelled env i")
    case True
    then show ?thesis by (simp add: reach_Suc cancel_log_def)
  next
    case False
    then show ?thesis
      by (simp add: reach_Suc Cons.IH trace_process_file upt_rec)
  qed
qed

lemma counters_handle_result:
  "successful (handle_result fn r st) + failed (handle_result fn r st) = successful st + failed st + 1"
  by (simp add: handle_result_def Let_def split: run_result.split)

lemma counters_process_file:
  "successful (process_file env w t i f st) + failed (process_file env w t i f st)
     = successful st + failed st + 1"
  by (simp add: process_file_def Let_def counters_handle_result)

lemma counters_run_loop:
  "successful (run_loop env w t i fs st) + failed (run_loop env w t i fs st)
     = successful st + failed st + int (reach env i (length fs))"
proof (induction fs arbitrary: i st)
  case Nil
  then show ?case by simp
next
  case (Cons f fs)
  then show ?case by (simp add: reach_Suc counters_process_file)
qed

subsection \<open>Reading traces\<close>

lemma invocations_simps [simp]:
  "invocations [] = []"
  "invocations (SubprocessRun a t # es) = (a, t) # invocations es"
  "invocations (Progress c n m # es) = invocations es"
  "invocations (FileComplete fn ok m # es) = invocations es"
  "invocations (AllComplete s f # es) = invocations es"
  "invocations (LogMessage m # es) = invocations es"
  by (simp_all add: invocations_def)

lemma completions_simps [simp]:
  "completions [] = []"
  "completions (FileComplete fn ok m # es) = (fn, ok, m) # completions es"
  "completions (Progress c n m # es) = completions es"
  "completions (SubprocessRun a t # es) = completions es"
  "completions (AllComplete s f # es) = completions es"
  "completions (LogMessage m # es) = completions es"
  by (simp_all add: completions_def)

lemma progresses_simps [simp]:
  "progresses [] = []"
  "progresses (Progress c n m # es) = (c, n, m) # progresses es"
  "progresses (FileComplete fn ok m # es) = progresses es"
  "progresses (SubprocessRun a t # es) = progresses es"
  "progresses (AllComplete s f # es) = progresses es"
  "progresses (LogMessage m # es) = progresses es"
  by (simp_all add: progresses_def)

lemma summaries_simps [simp]:
  "summaries [] = []"
  "summaries (AllComplete s f # es) = (s, f) # summaries es"
  "summaries (FileComplete fn ok m # es) = summaries es"
  "summaries (SubprocessRun a t # es) = summaries es"
  "summaries (Progress c n m # es) = summaries es"
  "summaries (LogMessage m # es) = summaries es"
  by (simp_all add: summaries_def)

lemma invocations_append [simp]: "invocations (xs @ ys) = invocations xs @ invocations ys"
  by (simp add: invocations_def List.map_filter_def)

lemma completions_append [simp]: "completions (xs @ ys) = completions xs @ completions ys"
  by (simp add: completions_def List.map_filter_def)

lemma progresses_append [simp]: "progresses (xs @ ys) = progresses xs @ progresses ys"
  by (simp add: progresses_def List.map_filter_def)

lemma summaries_append [simp]: "summaries (xs @ ys) = summaries xs @ summaries ys"
  by (simp add: summaries_def List.map_filter_def)

lemma invocations_concat: "invocations (concat xss) = concat (map invocations xss)"
  by (induction xss) simp_all

lemma completions_concat: "completions (concat xss) = concat (map completions xss)"
  by (induction xss) simp_all

lemma progresses_concat: "progresses (concat xss) = concat (map progresses xss)"
  by (induction xss) simp_all

lemma summaries_concat: "summaries (concat xss) = concat (map summaries xss)"
  by (induction xss) simp_all

subsection \<open>What one iteration emits\<close>

lemma item_effects_eq:
  "item_effects env w t i f =
     [Progress (int i) t (''Processing: '' @ name f),
      LogMessage (CHR 0x0A # rule60),
      LogMessage (''Processing: '' @ name f),
      LogMessage (''Output: '' @ str (output_path w f)),
      LogMessage (rule60 @ [CHR 0x0A]),
      SubprocessRun (argv w f) 600]
     @ trace (handle_result (name f) (subprocess_run env i (argv w f) 600)
                \<lparr>successful = 0, failed = 0, trace = []\<rparr>)"
  unfolding item_effects_def process_file_def Let_def
  by (subst trace_handle_result) simp

lemma handle_result_trace_cases:
  "trace (handle_result fn r \<lparr>successful = 0, failed = 0, trace = []\<rparr>) =
     (case r of
        Completed rc out err \<Rightarrow>
          if rc = 0 then [FileComplete fn True ''Success'', LogMessage out]
          else [FileComplete fn False (if err = [] then ''Unknown error'' else err),
                LogMessage (cross_mark @ '' Error: '' @ (if err = [] then ''Unknown error'' else err))]
      | TimeoutExpired \<Rightarrow>
          [FileComplete fn False ''Timeout (>10 min)'',
           LogMessage (cross_mark @ '' Error: Processing timeout exceeded'')]
      | Raised e \<Rightarrow> [FileComplete fn False e, LogMessage (cross_mark @ '' Error: '' @ e)])"
  by (simp add: handle_result_def Let_def split: run_result.split)

lemma invocations_item [simp]: "invocations (item_effects env w t i f) = [(argv w f, 600)]"
  by (simp add: item_effects_eq handle_result_trace_cases split: run_result.split)

lemma progresses_item [simp]:
  "progresses (item_effects env w t i f) = [(int i, t, ''Processing: '' @ name f)]"
  by (simp add: item_effects_eq handle_result_trace_cases split: run_result.split)

lemma summaries_item [simp]: "summaries (item_effects env w t i f) = []"
  by (simp add: item_effects_eq handle_result_trace_cases split: run_result.split)

lemma length_completions_item [simp]: "length (completions (item_effects env w t i f)) = 1"
  by (simp add: item_effects_eq handle_result_trace_cases split: run_result.split)

lemma concat_map_single: "concat (map (\<lambda>x. [g x]) xs) = map g xs"
  by (induction xs) simp_all

lemma zip_upt_take: "k \<le> length fs \<Longrightarrow> zip [0..<k] (take k fs) = map (\<lambda>j. (j, fs ! j)) [0..<k]"
  by (simp add: list_eq_iff_nth_eq)

subsection \<open>The whole run\<close>

lemma trace_run:
  "trace (run env w) =
     concat (map (\<lambda>j. item_effects env w (int (length (files w))) j (files w ! j))
         [0..<reach env 0 (length (files w))])
     @ (if reach env 0 (length (files w)) < length (files w) then [cancel_log] else [])
     @ [Progress (int (length (files w))) (int (length (files w))) ''Complete'',
        AllComplete (successful (run env w)) (failed (run env w))]"
  using reach_le[of env 0 "length (files w)"]
  by (simp add: run_def Let_def trace_run_loop zip_upt_take o_def)

lemma counters_run:
  "successful (run env w) + failed (run env w) = int (reach env 0 (length (files w)))"
  by (simp add: run_def Let_def counters_run_loop)

lemma invocations_run:
  "invocations (trace (run env w)) =
     map (\<lambda>j. (argv w (files w ! j), 600)) [0..<reach env 0 (length (files w))]"
  by (simp add: trace_run invocations_concat o_def cancel_log_def concat_map_single)

lemma progresses_run:
  "progresses (trace (run env w)) =
     map (\<lambda>j. (int j, int (length (files w)), ''Processing: '' @ name (files w ! j)))
       [0..<reach env 0 (length (files w))]
     @ [(int (length (files w)), int (length (files w)), ''Complete'')]"
  by (simp add: trace_run progresses_concat o_def cancel_log_def concat_map_single)

lemma summaries_run:
  "summaries (trace (run env w)) = [(successful (run env w), failed (run env w))]"
  by (simp add: trace_run summaries_concat o_def cancel_log_def)


section \<open>Facts about the run\<close>

lemma reach_stop:
  assumes "reach env 0 n < n"
  shows "cancelled env (reach env 0 n)"
proof -
  let ?P = "\<lambda>j. \<not> cancelled env j"
  have lt: "length (takeWhile ?P [0..<n]) < length [0..<n]"
    using assms by (simp add: reach_def)
  have "\<not> ?P ([0..<n] ! length (takeWhile ?P [0..<n]))"
    by (rule nth_length_takeWhile[OF lt])
  moreover have "[0..<n] ! length (takeWhile ?P [0..<n]) = reach env 0 n"
    using lt by (simp add: reach_def)
  ultimately show ?thesis by simp
qed

lemma reach_gt:
  assumes "i < n" "\<forall>j\<le>i. \<not> cancelled env j"
  shows "i < reach env 0 n"
proof (rule ccontr)
  assume "\<not> i < reach env 0 n"
  then have le: "reach env 0 n \<le> i" by simp
  then have "cancelled env (reach env 0 n)"
    using assms(1) by (intro reach_stop) simp
  with assms(2) le show False by blast
qed

lemma reach_next:
  assumes "i < reach env 0 n" "Suc i < n" "\<not> cancelled env (Suc i)"
  shows "Suc i < reach env 0 n"
proof (rule ccontr)
  assume "\<not> Suc i < reach env 0 n"
  with assms(1) have eq: "reach env 0 n = Suc i" by simp
  then have "cancelled env (reach env 0 n)"
    using assms(2) by (intro reach_stop) simp
  with eq assms(3) show False by simp
qed

lemma reach_results [simp]: "reach (env\<lparr>subprocess_run := sp\<rparr>) i n = reach env i n"
  by (simp add: reach_def)

lemma notified_simps:
  "notified fn (Completed 0 out err) = (fn, True, ''Success'')"
  "rc \<noteq> 0 \<Longrightarrow> notified fn (Completed rc out err) = (fn, False, if err = [] then ''Unknown error'' else err)"
  "notified fn TimeoutExpired = (fn, False, ''Timeout (>10 min)'')"
  "notified fn (Raised e) = (fn, False, e)"
  by (simp_all add: notified_def handle_result_trace_cases)

lemma completions_item_notified:
  "completions (item_effects env w t i f) = [notified (name f) (subprocess_run env i (argv w f) 600)]"
  by (simp add: item_effects_eq notified_def handle_result_trace_cases split: run_result.split)

lemma completions_run:
  "completions (trace (run env w)) =
     map (\<lambda>j. notified (name (files w ! j)) (subprocess_run env j (argv w (files w ! j)) 600))
       [0..<reach env 0 (length (files w))]"
  by (simp add: trace_run completions_concat o_def cancel_log_def concat_map_single
      completions_item_notified)

lemma fst_notified [simp]: "fst (notified fn r) = fn"
  by (cases r) (simp_all add: notified_def handle_result_trace_cases)

lemma counted_handle_result: "counted st \<Longrightarrow> counted (handle_result fn r st)"
  by (simp add: counted_def handle_result_def Let_def count_ok_def count_failed_def
      split: run_result.split)

lemma counted_process_file: "counted st \<Longrightarrow> counted (process_file env w t i f st)"
  unfolding process_file_def Let_def
  by (rule counted_handle_result) (simp add: counted_def count_ok_def count_failed_def)

lemma counted_run_loop: "counted st \<Longrightarrow> counted (run_loop env w t i fs st)"
proof (induction fs arbitrary: i st)
  case Nil
  then show ?case by simp
next
  case (Cons f fs)
  then show ?case
    by (auto simp: counted_process_file) (simp add: counted_def count_ok_def count_failed_def)
qed

lemma counted_loop_of_run:
  "counted (run_loop env w t 0 (files w) \<lparr>successful = 0, failed = 0, trace = []\<rparr>)"
  by (rule counted_run_loop) (simp add: counted_def count_ok_def count_failed_def)

lemma count_ok_failed: "count_ok tr + count_failed tr = length (completions tr)"
  by (simp add: count_ok_def count_failed_def split_def sum_length_filter_compl)

lemma milestones_simps [simp]:
  "milestones [] = []"
  "milestones (Progress c n m # es) = Progress c n m # milestones es"
  "milestones (SubprocessRun a t # es) = SubprocessRun a t # milestones es"
  "milestones (FileComplete fn ok m # es) = milestones es"
  "milestones (AllComplete s f # es) = milestones es"
  "milestones (LogMessage m # es) = milestones es"
  by (simp_all add: milestones_def)

lemma milestones_append [simp]: "milestones (xs @ ys) = milestones xs @ milestones ys"
  by (simp add: milestones_def)

lemma milestones_concat: "milestones (concat xss) = concat (map milestones xss)"
  by (induction xss) simp_all

lemma milestones_item [simp]:
  "milestones (item_effects env w t i f) =
     [Progress (int i) t (''Processing: '' @ name f), SubprocessRun (argv w f) 600]"
  by (simp add: item_effects_eq handle_result_trace_cases split: run_result.split)

lemma count_ok_snoc2 [simp]:
  "count_ok (pre @ [Progress a b c, AllComplete s f]) = count_ok pre"
  "count_failed (pre @ [Progress a b c, AllComplete s f]) = count_failed pre"
  by (simp_all add: count_ok_def count_failed_def)

lemma map_take_nth: "k \<le> length fs \<Longrightarrow> map g (take k fs) = map (\<lambda>j. g (fs ! j)) [0..<k]"
  by (simp add: list_eq_iff_nth_eq)

lemma timeout_distinct:
  "(handle_result fn r st = handle_result fn TimeoutExpired st) = (r = TimeoutExpired)"
proof (cases r)
  case (Completed rc out err)
  have "trace (handle_result fn (Completed rc out err) st)
          \<noteq> trace (handle_result fn TimeoutExpired st)"
    by (simp add: handle_result_def Let_def)
  then show ?thesis using Completed by auto
next
  case TimeoutExpired
  then show ?thesis by simp
next
  case (Raised e)
  have "trace (handle_result fn (Raised e) st) \<noteq> trace (handle_result fn TimeoutExpired st)"
    by (auto simp: handle_result_def)
  then show ?thesis using Raised by auto
qed

lemma counted_run: "counted (run env w)"
  unfolding run_def Let_def
  using counted_loop_of_run[of env w "int (length (files w))"]
  by (simp add: counted_def count_ok_def count_failed_def)


subsection \<open>Paths and the example values\<close>

lemma name_joinpath [simp]: "name (joinpath p s) = s"
  by (simp add: name_def joinpath_def)

lemma parent_joinpath [simp]: "parent (joinpath p s) = p"
  by (simp add: parent_def joinpath_def)

lemma example_paths_distinct:
  "a_wav \<noteq> b_mp3" "a_wav \<noteq> c_tar_gz" "a_wav \<noteq> d_flac" "b_mp3 \<noteq> c_tar_gz"
  "b_mp3 \<noteq> a_wav" "c_tar_gz \<noteq> a_wav" "c_tar_gz \<noteq> b_mp3"
  by (simp_all add: a_wav_def b_mp3_def c_tar_gz_def d_flac_def)

lemma example_strs:
  "str a_wav = ''/home/u/a.wav''" "str b_mp3 = ''/home/u/b.mp3''"
  "str c_tar_gz = ''/data/c.tar.gz''" "str d_flac = ''/data/d.flac''"
  "str script = ''/opt/process_audio.sh''"
  by (simp_all add: str_def a_wav_def b_mp3_def c_tar_gz_def d_flac_def script_def)

lemma example_names:
  "name a_wav = ''a.wav''" "name b_mp3 = ''b.mp3''"
  "name c_tar_gz = ''c.tar.gz''" "name d_flac = ''d.flac''"
  by (simp_all add: name_def a_wav_def b_mp3_def c_tar_gz_def d_flac_def)

lemma example_stems:
  "stem a_wav = ''a''" "stem b_mp3 = ''b''" "stem c_tar_gz = ''c.tar''" "stem d_flac = ''d''"
  by (simp_all add: stem_def example_names)

lemma example_outputs:
  "str (output_path worker4 a_wav) = ''/home/u/a_processed.mp3''"
  "str (output_path worker4 b_mp3) = ''/home/u/b_processed.mp3''"
  "str (output_path worker4 c_tar_gz) = ''/data/c.tar_processed.mp3''"
  "str (output_path worker4 d_flac) = ''/data/d_processed.mp3''"
  "str (output_path worker2 a_wav) = ''/out/a_processed.mp3''"
  "str (output_path worker2 b_mp3) = ''/out/b_processed.mp3''"
  by (simp_all add: output_path_def worker4_def worker2_def example_stems)
    (simp_all add: str_def joinpath_def parent_def out_dir_def a_wav_def b_mp3_def
      c_tar_gz_def d_flac_def)

lemma example_argv:
  "argv worker4 a_wav =
     [''/opt/process_audio.sh'', ''/home/u/a.wav'', ''/home/u/a_processed.mp3'']"
  "argv worker4 b_mp3 =
     [''/opt/process_audio.sh'', ''/home/u/b.mp3'', ''/home/u/b_processed.mp3'']"
  "argv worker4 c_tar_gz =
     [''/opt/process_audio.sh'', ''/data/c.tar.gz'', ''/data/c.tar_processed.mp3'']"
  "argv worker4 d_flac =
     [''/opt/process_audio.sh'', ''/data/d.flac'', ''/data/d_processed.mp3'']"
  "argv worker2 a_wav =
     [''/opt/process_audio.sh'', ''/home/u/a.wav'', ''/out/a_processed.mp3'']"
  "argv worker2 b_mp3 =
     [''/opt/process_audio.sh'', ''/home/u/b.mp3'', ''/out/b_processed.mp3'']"
  by (simp_all add: argv_def example_outputs example_strs)
    (simp_all add: worker4_def worker2_def example_strs)

lemma env4_never_cancelled: "\<not> cancelled env4 j"
  by (simp add: env4_def)

lemma files_worker4:
  "files worker4 ! 0 = a_wav" "files worker4 ! 1 = b_mp3" "files worker4 ! Suc 0 = b_mp3"
  "files worker4 ! 2 = c_tar_gz" "files worker4 ! 3 = d_flac" "length (files worker4) = 4"
  by (simp_all add: worker4_def)

lemma files_worker2:
  "files worker2 ! 0 = a_wav" "files worker2 ! 1 = b_mp3" "files worker2 ! Suc 0 = b_mp3"
  "length (files worker2) = 2"
  by (simp_all add: worker2_def)

lemma results_env4:
  "subprocess_run env4 0 a t = Completed 0 ''done'' []"
  "subprocess_run env4 1 a t = Completed 1 [] ''bad codec''"
  "subprocess_run env4 (Suc 0) a t = Completed 1 [] ''bad codec''"
  "subprocess_run env4 2 a t = TimeoutExpired"
  "subprocess_run env4 3 a t = Raised ''[Errno 13] Permission denied''"
  by (simp_all add: env4_def results4_def)


subsection \<open>The queue\<close>

lemma add_step_first_occurrence:
  "distinct q \<Longrightarrow>
     foldl (\<lambda>q file_path. if file_path \<in> set q then q else q @ [file_path]) q fs
       = rev (remdups (rev (q @ fs)))"
proof (induction fs rule: rev_induct)
  case Nil
  then show ?case by (simp add: distinct_remdups_id)
next
  case (snoc x fs)
  then show ?case by simp
qed

lemma add_files_first_occurrence:
  "distinct q \<Longrightarrow> add_files q fs = rev (remdups (rev (q @ fs)))"
  by (simp add: add_files_def add_step_first_occurrence)

lemma add_files_extends: "\<exists>ys. add_files q fs = q @ ys"
  unfolding add_files_def
  by (induction fs arbitrary: q) (auto, metis append.assoc)

lemma foldl_add_files:
  "distinct q \<Longrightarrow> foldl add_files q batches = rev (remdups (rev (q @ concat batches)))"
proof (induction batches arbitrary: q)
  case Nil
  then show ?case by (simp add: distinct_remdups_id)
next
  case (Cons b bs)
  have d: "distinct (add_files q b)"
    using Cons.prems by (simp add: add_files_first_occurrence)
  have "foldl add_files q (b # bs) = foldl add_files (add_files q b) bs" by simp
  also have "\<dots> = rev (remdups (rev (add_files q b @ concat bs)))"
    by (rule Cons.IH[OF d])
  also have "\<dots> = rev (remdups (rev (concat bs) @ remdups (rev (q @ b))))"
    using Cons.prems by (simp add: add_files_first_occurrence)
  also have "\<dots> = rev (remdups (rev (concat bs) @ rev (q @ b)))"
    by (simp only: remdups_append2)
  also have "\<dots> = rev (remdups (rev (q @ concat (b # bs))))"
    by simp
  finally show ?case .
qed

lemma remove_step:
  "distinct q \<Longrightarrow> (if x \<in> set q then remove1 x q else q) = filter (\<lambda>p. p \<noteq> x) q"
  by (induction q) auto

lemma remove_step_filter:
  "distinct q \<Longrightarrow>
     foldl (\<lambda>q file_path. if file_path \<in> set q then remove1 file_path q else q) q sel
       = filter (\<lambda>p. p \<notin> set sel) q"
proof (induction sel arbitrary: q)
  case Nil
  then show ?case by simp
next
  case (Cons x sel)
  have d: "distinct (filter (\<lambda>p. p \<noteq> x) q)" using Cons.prems by simp
  have "foldl (\<lambda>q file_path. if file_path \<in> set q then remove1 file_path q else q) q (x # sel)
      = foldl (\<lambda>q file_path. if file_path \<in> set q then remove1 file_path q else q)
          (filter (\<lambda>p. p \<noteq> x) q) sel"
    by (simp only: foldl_Cons remove_step[OF Cons.prems])
  also have "\<dots> = filter (\<lambda>p. p \<notin> set sel) (filter (\<lambda>p. p \<noteq> x) q)"
    by (rule Cons.IH[OF d])
  also have "\<dots> = filter (\<lambda>p. p \<notin> set (x # sel)) q"
    by (simp add: conj_commute)
  finally show ?case .
qed

lemma remove_step_absent:
  "set sel \<inter> set q = {} \<Longrightarrow>
     foldl (\<lambda>q file_path. if file_path \<in> set q then remove1 file_path q else q) q sel = q"
  by (induction sel) auto


section \<open>Cancellation\<close>

text \<open>
  C1. In a batch of \<open>N\<close> items, let the cancellation flag be read as set at the top of
  the loop before item \<open>k\<close> (counted from 1) is invoked, the loop having reached that
  item. Then the run stops there: the two counters of the summary add up to \<open>k - 1\<close>,
  the per-item notifications are those of the items \<open>1 .. k - 1\<close> and no others, the
  external process was called for these items only, and the trace ends with the
  cancellation log line and the two final notifications.
\<close>

theorem cancellation_stops_run:
  assumes "1 \<le> k" "k \<le> length (files w)" "cancelled env (k - 1)"
    "\<forall>j<k - 1. \<not> cancelled env j"
  shows "successful (run env w) + failed (run env w) = int k - 1
       \<and> summaries (trace (run env w)) = [(successful (run env w), failed (run env w))]
       \<and> length (completions (trace (run env w))) = k - 1
       \<and> map fst (completions (trace (run env w))) = map name (take (k - 1) (files w))
       \<and> invocations (trace (run env w)) = map (\<lambda>f. (argv w f, 600)) (take (k - 1) (files w))
       \<and> (\<exists>pre. trace (run env w) =
             pre @ [cancel_log,
                    Progress (int (length (files w))) (int (length (files w))) ''Complete'',
                    AllComplete (successful (run env w)) (failed (run env w))])"
proof -
  have r: "reach env 0 (length (files w)) = k - 1"
    using assms by (intro reach_first) simp_all
  have le: "k - 1 \<le> length (files w)" using assms(2) by simp
  have a: "successful (run env w) + failed (run env w) = int k - 1"
    using assms(1) by (simp add: counters_run r of_nat_diff)
  have c: "length (completions (trace (run env w))) = k - 1"
    by (simp add: completions_run r)
  have d: "map fst (completions (trace (run env w))) = map name (take (k - 1) (files w))"
    using le by (simp add: completions_run r o_def map_take_nth)
  have e: "invocations (trace (run env w)) = map (\<lambda>f. (argv w f, 600)) (take (k - 1) (files w))"
    using le by (simp add: invocations_run r o_def map_take_nth)
  have lt: "k - 1 < length (files w)" using assms(1,2) by simp
  have f: "\<exists>pre. trace (run env w) =
             pre @ [cancel_log,
                    Progress (int (length (files w))) (int (length (files w))) ''Complete'',
                    AllComplete (successful (run env w)) (failed (run env w))]"
    using lt by (subst trace_run) (simp add: r)
  from a c d e f summaries_run[of env w] show ?thesis by blast
qed

text \<open>Four files, the flag set before the third: two items are attempted.\<close>

theorem cancellation_stops_run_witness:
  "length (files worker4) = 4
   \<and> cancelled env_cancel_at_2 2
   \<and> \<not> cancelled env_cancel_at_2 0 \<and> \<not> cancelled env_cancel_at_2 1
   \<and> successful (run env_cancel_at_2 worker4) + failed (run env_cancel_at_2 worker4) = 2
   \<and> map fst (completions (trace (run env_cancel_at_2 worker4))) = [''a.wav'', ''b.mp3'']
   \<and> map fst (invocations (trace (run env_cancel_at_2 worker4))) =
        [[''/opt/process_audio.sh'', ''/home/u/a.wav'', ''/home/u/a_processed.mp3''],
         [''/opt/process_audio.sh'', ''/home/u/b.mp3'', ''/home/u/b_processed.mp3'']]"
proof -
  have h1: "1 \<le> (3::nat)" by simp
  have h2: "3 \<le> length (files worker4)" by (simp add: worker4_def)
  have h3: "cancelled env_cancel_at_2 (3 - 1)" by (simp add: env_cancel_at_2_def)
  have h4: "\<forall>j<3 - 1. \<not> cancelled env_cancel_at_2 j" by (simp add: env_cancel_at_2_def)
  have t: "take 2 (files worker4) = [a_wav, b_mp3]" by (simp add: worker4_def)
  show ?thesis
    using cancellation_stops_run[OF h1 h2 h3 h4] h3 h4
    by (simp add: t example_names example_argv) (simp add: worker4_def env_cancel_at_2_def)
qed


section \<open>Classification of the outcome of an item\<close>

text \<open>
  C2, as the code has it. For every attempted item (the loop reaches item \<open>i\<close> with the
  flag unset), the external process is called with a timeout of 600 seconds and the
  per-item notification is determined by the result of that call: return code 0 gives the
  success flag and the message \<open>Success\<close>; a non-zero return code gives the failure flag
  with the text of stderr, or \<open>Unknown error\<close> when that text is empty; an expired
  timeout gives the failure flag with the fixed message \<open>Timeout (>10 min)\<close>, whatever
  the process would have returned, and adds to \<open>failed\<close>; any other exception gives the
  failure flag with the text of the exception. The timeout is not an outcome of a kind of
  its own: its notification and its counters are those of a non-zero return code whose
  stderr is the text \<open>Timeout (>10 min)\<close>. Only the line written to the log,
  \<open>Processing timeout exceeded\<close>, is emitted for no other result.
\<close>

theorem outcome_classification:
  assumes "i < length (files w)" "\<forall>j\<le>i. \<not> cancelled env j"
  shows "invocations (trace (run env w)) ! i = (argv w (files w ! i), 600)
    \<and> (subprocess_run env i (argv w (files w ! i)) 600 = Completed 0 out err \<longrightarrow>
         completions (trace (run env w)) ! i = (name (files w ! i), True, ''Success''))
    \<and> (rc \<noteq> 0 \<and> subprocess_run env i (argv w (files w ! i)) 600 = Completed rc out err \<longrightarrow>
         completions (trace (run env w)) ! i =
           (name (files w ! i), False, if err = [] then ''Unknown error'' else err))
    \<and> (subprocess_run env i (argv w (files w ! i)) 600 = TimeoutExpired \<longrightarrow>
         completions (trace (run env w)) ! i = (name (files w ! i), False, ''Timeout (>10 min)''))
    \<and> (subprocess_run env i (argv w (files w ! i)) 600 = Raised e \<longrightarrow>
         completions (trace (run env w)) ! i = (name (files w ! i), False, e))
    \<and> handle_result fn TimeoutExpired st =
         st\<lparr>failed := failed st + 1,
            trace := trace st @
              [FileComplete fn False ''Timeout (>10 min)'',
               LogMessage (cross_mark @ '' Error: Processing timeout exceeded'')]\<rparr>
    \<and> (rc \<noteq> 0 \<longrightarrow>
         completions (trace (handle_result fn (Completed rc out ''Timeout (>10 min)'') st))
           = completions (trace (handle_result fn TimeoutExpired st))
         \<and> successful (handle_result fn (Completed rc out ''Timeout (>10 min)'') st)
           = successful (handle_result fn TimeoutExpired st)
         \<and> failed (handle_result fn (Completed rc out ''Timeout (>10 min)'') st)
           = failed (handle_result fn TimeoutExpired st))
    \<and> ((handle_result fn r st = handle_result fn TimeoutExpired st) = (r = TimeoutExpired))"
proof -
  have lt: "i < reach env 0 (length (files w))" using assms by (rule reach_gt)
  have c: "completions (trace (run env w)) ! i =
             notified (name (files w ! i)) (subprocess_run env i (argv w (files w ! i)) 600)"
    using lt by (simp add: completions_run)
  have a: "invocations (trace (run env w)) ! i = (argv w (files w ! i), 600)"
    using lt by (simp add: invocations_run)
  have h: "handle_result fn TimeoutExpired st =
         st\<lparr>failed := failed st + 1,
            trace := trace st @
              [FileComplete fn False ''Timeout (>10 min)'',
               LogMessage (cross_mark @ '' Error: Processing timeout exceeded'')]\<rparr>"
    by (simp add: handle_result_def emit_def)
  have s: "completions (trace (handle_result fn (Completed rc out ''Timeout (>10 min)'') st))
           = completions (trace (handle_result fn TimeoutExpired st))
         \<and> successful (handle_result fn (Completed rc out ''Timeout (>10 min)'') st)
           = successful (handle_result fn TimeoutExpired st)
         \<and> failed (handle_result fn (Completed rc out ''Timeout (>10 min)'') st)
           = failed (handle_result fn TimeoutExpired st)" if "rc \<noteq> 0"
    using that by (simp add: handle_result_def Let_def)
  have cls: "(subprocess_run env i (argv w (files w ! i)) 600 = Completed 0 out err \<longrightarrow>
         completions (trace (run env w)) ! i = (name (files w ! i), True, ''Success''))
    \<and> (rc \<noteq> 0 \<and> subprocess_run env i (argv w (files w ! i)) 600 = Completed rc out err \<longrightarrow>
         completions (trace (run env w)) ! i =
           (name (files w ! i), False, if err = [] then ''Unknown error'' else err))
    \<and> (subprocess_run env i (argv w (files w ! i)) 600 = TimeoutExpired \<longrightarrow>
         completions (trace (run env w)) ! i = (name (files w ! i), False, ''Timeout (>10 min)''))
    \<and> (subprocess_run env i (argv w (files w ! i)) 600 = Raised e \<longrightarrow>
         completions (trace (run env w)) ! i = (name (files w ! i), False, e))"
    unfolding c by (simp add: notified_simps)
  from a cls h s timeout_distinct[of fn r st] show ?thesis by blast
qed

text \<open>Four files whose calls end in the four ways; a timeout and an exit with code 1
  and the same text, handled from the initial state.\<close>

theorem outcome_classification_witness:
  "length (files worker4) = 4
   \<and> \<not> cancelled env4 0 \<and> \<not> cancelled env4 1 \<and> \<not> cancelled env4 2 \<and> \<not> cancelled env4 3
   \<and> subprocess_run env4 0 (argv worker4 a_wav) 600 = Completed 0 ''done'' []
   \<and> completions (trace (run env4 worker4)) ! 0 = (''a.wav'', True, ''Success'')
   \<and> subprocess_run env4 1 (argv worker4 b_mp3) 600 = Completed 1 [] ''bad codec''
   \<and> completions (trace (run env4 worker4)) ! 1 = (''b.mp3'', False, ''bad codec'')
   \<and> subprocess_run env4 2 (argv worker4 c_tar_gz) 600 = TimeoutExpired
   \<and> completions (trace (run env4 worker4)) ! 2 = (''c.tar.gz'', False, ''Timeout (>10 min)'')
   \<and> subprocess_run env4 3 (argv worker4 d_flac) 600 = Raised ''[Errno 13] Permission denied''
   \<and> completions (trace (run env4 worker4)) ! 3
        = (''d.flac'', False, ''[Errno 13] Permission denied'')
   \<and> snd (invocations (trace (run env4 worker4)) ! 2) = 600
   \<and> (1::int) \<noteq> 0
   \<and> completions (trace (handle_result ''c.tar.gz'' (Completed 1 [] ''Timeout (>10 min)'')
         \<lparr>successful = 0, failed = 0, trace = []\<rparr>))
       = completions (trace (handle_result ''c.tar.gz'' TimeoutExpired
         \<lparr>successful = 0, failed = 0, trace = []\<rparr>))
   \<and> failed (handle_result ''c.tar.gz'' TimeoutExpired
         \<lparr>successful = 0, failed = 0, trace = []\<rparr>) = 1"
proof -
  have nc: "\<forall>j\<le>i. \<not> cancelled env4 j" for i
    by (simp add: env4_never_cancelled)
  have l: "0 < length (files worker4)" "1 < length (files worker4)"
    "2 < length (files worker4)" "3 < length (files worker4)"
    by (simp_all add: files_worker4)
  note t0 = outcome_classification[OF l(1) nc, where out = "''done''" and err = "[]"]
  note t1 = outcome_classification[OF l(2) nc, where rc = 1 and out = "[]"
      and err = "''bad codec''" and fn = "''c.tar.gz''"
      and st = "\<lparr>successful = 0, failed = 0, trace = []\<rparr>"]
  note t2 = outcome_classification[OF l(3) nc]
  note t3 = outcome_classification[OF l(4) nc, where e = "''[Errno 13] Permission denied''"]
  have c0: "completions (trace (run env4 worker4)) ! 0 = (''a.wav'', True, ''Success'')"
    using t0 by (simp add: files_worker4 results_env4 example_names)
  have c1: "completions (trace (run env4 worker4)) ! 1 = (''b.mp3'', False, ''bad codec'')"
    using t1 by (simp add: files_worker4 results_env4 example_names)
  have c2: "completions (trace (run env4 worker4)) ! 2
              = (''c.tar.gz'', False, ''Timeout (>10 min)'')
      \<and> snd (invocations (trace (run env4 worker4)) ! 2) = 600"
    using t2 by (simp add: files_worker4 results_env4 example_names)
  have c3: "completions (trace (run env4 worker4)) ! 3
        = (''d.flac'', False, ''[Errno 13] Permission denied'')"
    using t3 by (simp add: files_worker4 results_env4 example_names)
  have c4: "completions (trace (handle_result ''c.tar.gz'' (Completed 1 [] ''Timeout (>10 min)'')
         \<lparr>successful = 0, failed = 0, trace = []\<rparr>))
       = completions (trace (handle_result ''c.tar.gz'' TimeoutExpired
         \<lparr>successful = 0, failed = 0, trace = []\<rparr>))
     \<and> failed (handle_result ''c.tar.gz'' TimeoutExpired
         \<lparr>successful = 0, failed = 0, trace = []\<rparr>) = 1"
    using t1 by simp
  show ?thesis
    using c0 c1 c2 c3 c4 by (simp add: files_worker4 results_env4 env4_never_cancelled)
qed

text \<open>
  The timeout as a distinct outcome, told apart from a failure, fails on the
  notifications and the summary. Two runs over the same two files: in one every call runs
  into the timeout, in the other every call exits with code 1 and the text
  \<open>Timeout (>10 min)\<close> on stderr. Both emit the same per-item notifications and the
  same summary.
\<close>

theorem timeout_as_failure_counterexample:
  "subprocess_run env_all_timeout 0 (argv worker2 a_wav) 600 = TimeoutExpired
   \<and> subprocess_run env_all_exit1 0 (argv worker2 a_wav) 600
       = Completed 1 [] ''Timeout (>10 min)''
   \<and> completions (trace (run env_all_timeout worker2))
       = [(''a.wav'', False, ''Timeout (>10 min)''), (''b.mp3'', False, ''Timeout (>10 min)'')]
   \<and> completions (trace (run env_all_exit1 worker2))
       = [(''a.wav'', False, ''Timeout (>10 min)''), (''b.mp3'', False, ''Timeout (>10 min)'')]
   \<and> summaries (trace (run env_all_timeout worker2)) = [(0, 2)]
   \<and> summaries (trace (run env_all_exit1 worker2)) = [(0, 2)]"
proof -
  have u: "[0..<2] = [0, Suc 0]" by (simp add: upt_rec)
  have rt: "reach env_all_timeout 0 2 = 2"
    by (rule reach_all) (simp add: env_all_timeout_def)
  have re: "reach env_all_exit1 0 2 = 2"
    by (rule reach_all) (simp add: env_all_exit1_def)
  have st: "subprocess_run env_all_timeout j a t = TimeoutExpired" for j a t
    by (simp add: env_all_timeout_def)
  have se: "subprocess_run env_all_exit1 j a t = Completed 1 [] ''Timeout (>10 min)''" for j a t
    by (simp add: env_all_exit1_def)
  have ct: "completions (trace (run env_all_timeout worker2))
       = [(''a.wav'', False, ''Timeout (>10 min)''), (''b.mp3'', False, ''Timeout (>10 min)'')]"
    by (simp add: completions_run files_worker2 rt u st notified_simps example_names)
  have ce: "completions (trace (run env_all_exit1 worker2))
       = [(''a.wav'', False, ''Timeout (>10 min)''), (''b.mp3'', False, ''Timeout (>10 min)'')]"
    by (simp add: completions_run files_worker2 re u se notified_simps example_names)
  have kt: "successful (run env_all_timeout worker2) = 0 \<and> failed (run env_all_timeout worker2) = 2"
    using counted_run[of env_all_timeout worker2]
    by (simp add: counted_def count_ok_def count_failed_def ct)
  have ke: "successful (run env_all_exit1 worker2) = 0 \<and> failed (run env_all_exit1 worker2) = 2"
    using counted_run[of env_all_exit1 worker2]
    by (simp add: counted_def count_ok_def count_failed_def ce)
  show ?thesis
    using ct ce kt ke by (simp add: summaries_run st se)
qed


section \<open>The output path and the arguments of the call\<close>

text \<open>
  C3. For every input file the output path is the stem of the input followed by
  \<open>_processed.mp3\<close>, joined to the configured output folder when there is one and to the
  parent directory of the input file otherwise. For every attempted item the external
  process is called with the script followed by exactly two arguments: the input path and
  this output path, both as \<^verbatim>\<open>str\<close> renders them.
\<close>

theorem output_path_and_arguments:
  assumes "i < length (files w)" "\<forall>j\<le>i. \<not> cancelled env j"
  shows "invocations (trace (run env w)) ! i =
           ([str (script_path w), str (files w ! i), str (output_path w (files w ! i))], 600)
       \<and> output_path w f =
           joinpath (case output_folder w of Some d \<Rightarrow> d | None \<Rightarrow> parent f)
             (stem f @ ''_processed.mp3'')
       \<and> name (output_path w f) = stem f @ ''_processed.mp3''
       \<and> parent (output_path w f) = (case output_folder w of Some d \<Rightarrow> d | None \<Rightarrow> parent f)"
proof -
  have "i < reach env 0 (length (files w))" using assms by (rule reach_gt)
  then have a: "invocations (trace (run env w)) ! i =
           ([str (script_path w), str (files w ! i), str (output_path w (files w ! i))], 600)"
    by (simp add: invocations_run argv_def)
  have b: "output_path w f =
           joinpath (case output_folder w of Some d \<Rightarrow> d | None \<Rightarrow> parent f)
             (stem f @ ''_processed.mp3'')"
    by (simp add: output_path_def split: option.split)
  show ?thesis
    by (simp only: a b name_joinpath parent_joinpath simp_thms)
qed

text \<open>With an output folder, and without one.\<close>

theorem output_path_and_arguments_witness:
  "length (files worker2) = 2 \<and> length (files worker4) = 4
   \<and> \<not> cancelled env4 0 \<and> \<not> cancelled env4 1
   \<and> invocations (trace (run env4 worker2)) ! 1 =
        ([''/opt/process_audio.sh'', ''/home/u/b.mp3'', ''/out/b_processed.mp3''], 600)
   \<and> name (output_path worker2 b_mp3) = ''b_processed.mp3''
   \<and> parent (output_path worker2 b_mp3) = out_dir
   \<and> invocations (trace (run env4 worker4)) ! 1 =
        ([''/opt/process_audio.sh'', ''/home/u/b.mp3'', ''/home/u/b_processed.mp3''], 600)
   \<and> name (output_path worker4 c_tar_gz) = ''c.tar_processed.mp3''
   \<and> parent (output_path worker4 c_tar_gz) = \<lparr>anchor = ''/'', segments = [''data'']\<rparr>"
proof -
  have nc: "\<forall>j\<le>1. \<not> cancelled env4 j"
    by (simp add: env4_never_cancelled)
  have l2: "1 < length (files worker2)" by (simp add: files_worker2)
  have l4: "1 < length (files worker4)" by (simp add: files_worker4)
  have p: "parent c_tar_gz = \<lparr>anchor = ''/'', segments = [''data'']\<rparr>"
    by (simp add: parent_def c_tar_gz_def)
  have o2: "output_folder worker2 = Some out_dir" by (simp add: worker2_def)
  have o4: "output_folder worker4 = None" by (simp add: worker4_def)
  have s2: "script_path worker2 = script" by (simp add: worker2_def)
  have s4: "script_path worker4 = script" by (simp add: worker4_def)
  show ?thesis
    using output_path_and_arguments[OF l2 nc, of b_mp3]
      output_path_and_arguments[OF l4 nc, of c_tar_gz]
    by (simp add: files_worker2 files_worker4 example_outputs example_strs example_stems
        env4_never_cancelled p o2 o4 s2 s4)
qed


section \<open>The final notifications\<close>

text \<open>
  C4. Every run, cancelled or not, ends with two notifications: progress at
  \<open>(total, total)\<close>, where \<open>total\<close> is the length of the whole snapshot, and then the
  summary. The counters of the summary are the numbers of per-item notifications emitted
  before it with the success flag set and unset, and together they count the calls of the
  external process, that is the items attempted.
\<close>

theorem final_notifications:
  "\<exists>pre. trace (run env w) =
           pre @ [Progress (int (length (files w))) (int (length (files w))) ''Complete'',
                  AllComplete (int (count_ok pre)) (int (count_failed pre))]
         \<and> count_ok pre + count_failed pre = length (invocations pre)"
proof -
  let ?k = "reach env 0 (length (files w))"
  let ?N = "int (length (files w))"
  define pre where "pre =
     concat (map (\<lambda>j. item_effects env w ?N j (files w ! j)) [0..<?k])
     @ (if ?k < length (files w) then [cancel_log] else [])"
  have tr: "trace (run env w) =
      pre @ [Progress ?N ?N ''Complete'', AllComplete (successful (run env w)) (failed (run env w))]"
    by (simp add: pre_def trace_run)
  have c: "counted (run env w)" by (rule counted_run)
  have s: "successful (run env w) = int (count_ok pre)"
    using c unfolding counted_def by (subst (asm) (1 2) tr) simp
  have f: "failed (run env w) = int (count_failed pre)"
    using c unfolding counted_def by (subst (asm) (1 2) tr) simp
  have inv: "length (invocations pre) = ?k"
    by (simp add: pre_def invocations_concat o_def concat_map_single cancel_log_def)
  have com: "length (completions pre) = ?k"
    by (simp add: pre_def completions_concat o_def concat_map_single cancel_log_def
        completions_item_notified)
  show ?thesis
    using tr s f inv com count_ok_failed[of pre] by auto
qed


section \<open>The queue never holds a path twice\<close>

text \<open>
  C5. The queue has no duplicates and keeps the order of insertion. Starting from the
  empty queue, after any sequence of additions the queue is duplicate-free and is the
  list of all added paths in which only the first occurrence of each path is kept. Adding
  a path that is already queued changes nothing; adding a new path twice appends it once.
  An addition keeps a duplicate-free queue duplicate-free, leaves the entries already
  queued where they were, and makes the queue hold exactly the old and the added paths.
\<close>

theorem queue_has_no_duplicates:
  "distinct (foldl add_files [] batches)
   \<and> foldl add_files [] batches = rev (remdups (rev (concat batches)))
   \<and> (p \<in> set q \<longrightarrow> add_files q [p] = q)
   \<and> (p \<notin> set q \<longrightarrow> add_files q [p, p] = q @ [p])
   \<and> (distinct q \<longrightarrow> distinct (add_files q fs) \<and> take (length q) (add_files q fs) = q
         \<and> set (add_files q fs) = set q \<union> set fs)"
proof -
  have a: "foldl add_files [] batches = rev (remdups (rev (concat batches)))"
    using foldl_add_files[of "[]" batches] by simp
  have b: "distinct (foldl add_files [] batches)"
    unfolding a by simp
  have c: "p \<in> set q \<longrightarrow> add_files q [p] = q"
    by (simp add: add_files_def)
  have d: "p \<notin> set q \<longrightarrow> add_files q [p, p] = q @ [p]"
    by (simp add: add_files_def)
  have e: "distinct (add_files q fs) \<and> take (length q) (add_files q fs) = q
         \<and> set (add_files q fs) = set q \<union> set fs" if dq: "distinct q"
  proof -
    obtain ys where ys: "add_files q fs = q @ ys"
      using add_files_extends[of q fs] by blast
    have di: "distinct (add_files q fs)"
      using dq by (simp add: add_files_first_occurrence)
    have se: "set (add_files q fs) = set q \<union> set fs"
      using dq by (simp add: add_files_first_occurrence Un_commute)
    have ta: "take (length q) (add_files q fs) = q"
      by (simp add: ys)
    from di se ta show ?thesis by blast
  qed
  from a b c d e show ?thesis by blast
qed

theorem queue_has_no_duplicates_witness:
  "a_wav \<in> set [a_wav, b_mp3]
   \<and> add_files [a_wav, b_mp3] [a_wav] = [a_wav, b_mp3]
   \<and> c_tar_gz \<notin> set [a_wav]
   \<and> add_files [a_wav] [c_tar_gz, c_tar_gz] = [a_wav, c_tar_gz]
   \<and> distinct [a_wav, b_mp3]
   \<and> distinct (add_files [a_wav, b_mp3] [b_mp3, c_tar_gz, a_wav])
   \<and> set (add_files [a_wav, b_mp3] [b_mp3, c_tar_gz, a_wav]) = {a_wav, b_mp3, c_tar_gz}
   \<and> foldl add_files [] [[a_wav, b_mp3], [a_wav, c_tar_gz, b_mp3]] = [a_wav, b_mp3, c_tar_gz]"
proof -
  note t1 = queue_has_no_duplicates[of "[[a_wav, b_mp3], [a_wav, c_tar_gz, b_mp3]]" a_wav
      "[a_wav, b_mp3]" "[b_mp3, c_tar_gz, a_wav]"]
  note t2 = queue_has_no_duplicates[of "[]" c_tar_gz "[a_wav]" "[]"]
  have d: "distinct [a_wav, b_mp3]" by (simp add: example_paths_distinct)
  have a: "add_files [a_wav, b_mp3] [a_wav] = [a_wav, b_mp3]
     \<and> distinct (add_files [a_wav, b_mp3] [b_mp3, c_tar_gz, a_wav])
     \<and> set (add_files [a_wav, b_mp3] [b_mp3, c_tar_gz, a_wav]) = {a_wav, b_mp3, c_tar_gz}
     \<and> foldl add_files [] [[a_wav, b_mp3], [a_wav, c_tar_gz, b_mp3]] = [a_wav, b_mp3, c_tar_gz]"
    using t1 d by (auto simp: example_paths_distinct)
  have b: "add_files [a_wav] [c_tar_gz, c_tar_gz] = [a_wav, c_tar_gz]"
    using t2 by (simp add: example_paths_distinct)
  from a b d show ?thesis by (simp add: example_paths_distinct)
qed


section \<open>Failures do not end the batch\<close>

text \<open>
  C6. Failures of single items never end the batch. Which items are attempted does not
  depend on the result of any call: exchanging the results leaves the calls of a run
  unchanged, so no Failure, timeout or unexpected fault stops the loop. When an item has
  been attempted, whatever its outcome, the executor goes on to the next item of the
  snapshot and attempts it; the test of the cancellation flag at the top of that
  iteration, the subject of C1 and not a failure, is the only thing in between. In a run
  in which no cancellation is observed every item of the snapshot is attempted and
  notified. The only failure that keeps items from running is that of the validation
  before the run: a click on the button runs all queued files when the validation passes
  and none when it fails (the output folder cannot be created, the script is missing, or
  asking the file system for either raises), and a run that is not started calls nothing.
\<close>

theorem failures_never_abort:
  "invocations (trace (run (env\<lparr>subprocess_run := sp\<rparr>) w)) = invocations (trace (run env w))
   \<and> (i < length (invocations (trace (run env w))) \<and> Suc i < length (files w)
        \<and> \<not> cancelled env (Suc i) \<longrightarrow>
        Suc i < length (invocations (trace (run env w)))
        \<and> invocations (trace (run env w)) ! Suc i = (argv w (files w ! Suc i), 600))
   \<and> ((\<forall>j. \<not> cancelled env j) \<longrightarrow>
        invocations (trace (run env w)) = map (\<lambda>f. (argv w f, 600)) (files w)
        \<and> length (completions (trace (run env w))) = length (files w)
        \<and> invocations (click_process fsys env win) =
            (if (\<not> use_custom_output win \<or> output_folder_exists fsys = Exists
                  \<or> (output_folder_exists fsys = Missing \<and> mkdir_error fsys = None))
                \<and> script_exists fsys = Exists
             then map (\<lambda>f. ([str (window_script_path win), str f,
                               str (joinpath (if use_custom_output win then output_folder_edit win
                                              else parent f)
                                      (stem f @ ''_processed.mp3''))], 600))
                    (files_to_process win)
             else []))
   \<and> (isl (start_processing fsys win) \<longrightarrow> click_process fsys env win = [])"
proof -
  have a: "invocations (trace (run (env\<lparr>subprocess_run := sp\<rparr>) w)) = invocations (trace (run env w))"
    by (simp add: invocations_run)
  have n: "Suc i < length (invocations (trace (run env w)))
        \<and> invocations (trace (run env w)) ! Suc i = (argv w (files w ! Suc i), 600)"
    if "i < length (invocations (trace (run env w)))" "Suc i < length (files w)"
      "\<not> cancelled env (Suc i)"
  proof -
    have "i < reach env 0 (length (files w))" using that(1) by (simp add: invocations_run)
    then have "Suc i < reach env 0 (length (files w))"
      using that(2,3) by (rule reach_next)
    then show ?thesis by (simp add: invocations_run)
  qed
  have b: "invocations (trace (run env w)) = map (\<lambda>f. (argv w f, 600)) (files w)
        \<and> length (completions (trace (run env w))) = length (files w)"
    if "\<forall>j. \<not> cancelled env j" for w
  proof -
    have r: "reach env 0 (length (files w)) = length (files w)"
      using that by (intro reach_all) simp
    show ?thesis
      using map_take_nth[of "length (files w)" "files w" "\<lambda>f. (argv w f, 600::nat)"]
      by (simp add: invocations_run completions_run r)
  qed
  let ?passes = "(\<not> use_custom_output win \<or> output_folder_exists fsys = Exists
                  \<or> (output_folder_exists fsys = Missing \<and> mkdir_error fsys = None))
                \<and> script_exists fsys = Exists"
  have c: "invocations (click_process fsys env win) =
            (if ?passes
             then map (\<lambda>f. ([str (window_script_path win), str f,
                               str (joinpath (if use_custom_output win then output_folder_edit win
                                              else parent f)
                                      (stem f @ ''_processed.mp3''))], 600))
                    (files_to_process win)
             else [])"
    if nc: "\<forall>j. \<not> cancelled env j"
  proof (cases "start_processing fsys win")
    case (Inl reason)
    then have "files_to_process win = [] \<or> \<not> ?passes"
      by (auto simp: start_processing_def check_output_folder_def
          split: if_splits option.splits exists_result.splits)
    then show ?thesis
      using Inl by (auto simp: click_process_def)
  next
    case (Inr w')
    then have w': "w' = \<lparr>files = files_to_process win,
                output_folder = (if use_custom_output win
                                 then Some (output_folder_edit win) else None),
                script_path = window_script_path win\<rparr>"
      and ok: "?passes"
      by (auto simp: start_processing_def check_output_folder_def
          split: if_splits option.splits exists_result.splits)
    have "invocations (click_process fsys env win) = map (\<lambda>f. (argv w' f, 600)) (files w')"
      using b[OF nc, of w'] Inr by (simp add: click_process_def)
    then show ?thesis
      using ok by (auto simp: w' argv_def output_path_def Let_def)
  qed
  have d: "isl (start_processing fsys win) \<longrightarrow> click_process fsys env win = []"
    by (cases "start_processing fsys win") (simp_all add: click_process_def)
  from a n b[of w] c d show ?thesis by blast
qed

text \<open>Four calls of which three fail, all made; a window whose validation passes, one
  whose output folder cannot be created, and one for which asking for the folder
  raises.\<close>

theorem failures_never_abort_witness:
  "(\<forall>j. \<not> cancelled env4 j)
   \<and> length (files worker4) = 4
   \<and> length (invocations (trace (run env4 worker4))) = 4
   \<and> completions (trace (run env4 worker4)) ! 1 = (''b.mp3'', False, ''bad codec'')
   \<and> invocations (trace (run env4 worker4)) ! 2 = (argv worker4 c_tar_gz, 600)
   \<and> map fst (invocations (trace (run env4 worker4))) =
       [argv worker4 a_wav, argv worker4 b_mp3, argv worker4 c_tar_gz, argv worker4 d_flac]
   \<and> length (completions (trace (run env4 worker4))) = 4
   \<and> invocations (click_process fs_ok env4 window_ok) =
       [([''/opt/process_audio.sh'', ''/home/u/a.wav'', ''/out/a_processed.mp3''], 600),
        ([''/opt/process_audio.sh'', ''/home/u/b.mp3'', ''/out/b_processed.mp3''], 600)]
   \<and> isl (start_processing fs_readonly window_ok)
   \<and> click_process fs_readonly env4 window_ok = []
   \<and> isl (start_processing fs_denied window_ok)
   \<and> click_process fs_denied env4 window_ok = []"
proof -
  have nc: "\<forall>j. \<not> cancelled env4 j" by (simp add: env4_never_cancelled)
  have i: "isl (start_processing fs_readonly window_ok)"
    by (simp add: start_processing_def check_output_folder_def fs_readonly_def window_ok_def)
  have i': "isl (start_processing fs_denied window_ok)"
    by (simp add: start_processing_def check_output_folder_def fs_denied_def window_ok_def)
  have w: "files worker4 = [a_wav, b_mp3, c_tar_gz, d_flac]" by (simp add: worker4_def)
  have o: "str (joinpath out_dir (stem a_wav @ ''_processed.mp3'')) = ''/out/a_processed.mp3''"
    "str (joinpath out_dir (stem b_mp3 @ ''_processed.mp3'')) = ''/out/b_processed.mp3''"
    by (simp_all add: example_stems) (simp_all add: str_def joinpath_def out_dir_def)
  have a: "map fst (invocations (trace (run env4 worker4))) =
       [argv worker4 a_wav, argv worker4 b_mp3, argv worker4 c_tar_gz, argv worker4 d_flac]
   \<and> length (completions (trace (run env4 worker4))) = 4"
    using failures_never_abort[where env = env4 and sp = results4 and w = worker4
        and fsys = fs_ok and win = window_ok] nc
    by (simp add: w)
  then have l: "length (invocations (trace (run env4 worker4))) = 4"
    by (metis length_map length_Cons list.size(3) numeral_Bit0 numeral_One One_nat_def
        Suc_eq_plus1 add_Suc_right)
  have n: "invocations (trace (run env4 worker4)) ! 2 = (argv worker4 c_tar_gz, 600)"
    using failures_never_abort[where env = env4 and sp = results4 and w = worker4
        and fsys = fs_ok and win = window_ok and i = 1] l
    by (simp add: w env4_never_cancelled)
  have r: "reach env4 0 4 = 4"
    by (rule reach_all) (simp add: env4_never_cancelled)
  have f: "completions (trace (run env4 worker4)) ! 1 = (''b.mp3'', False, ''bad codec'')"
    by (simp add: completions_run files_worker4 r results_env4 notified_simps example_names)
  have b: "invocations (click_process fs_ok env4 window_ok) =
       [([''/opt/process_audio.sh'', ''/home/u/a.wav'', ''/out/a_processed.mp3''], 600),
        ([''/opt/process_audio.sh'', ''/home/u/b.mp3'', ''/out/b_processed.mp3''], 600)]"
    using failures_never_abort[where env = env4 and sp = results4 and w = worker4
        and fsys = fs_ok and win = window_ok] nc
    by (simp add: fs_ok_def window_ok_def example_strs o)
  have c: "click_process fs_readonly env4 window_ok = []"
    using failures_never_abort[where env = env4 and sp = results4 and w = worker4
        and fsys = fs_readonly and win = window_ok] i
    by simp
  have c': "click_process fs_denied env4 window_ok = []"
    using failures_never_abort[where env = env4 and sp = results4 and w = worker4
        and fsys = fs_denied and win = window_ok] i'
    by simp
  from nc a l n f b c c' i i' w show ?thesis by simp
qed


section \<open>The empty batch\<close>

text \<open>
  C7. A run over an empty snapshot calls the external process not once and emits
  exactly the two final notifications: progress at \<open>(0, 0)\<close> and the summary with
  \<open>successful = 0\<close> and \<open>failed = 0\<close>.
\<close>

theorem empty_batch:
  "trace (run env (w\<lparr>files := []\<rparr>)) = [Progress 0 0 ''Complete'', AllComplete 0 0]
   \<and> invocations (trace (run env (w\<lparr>files := []\<rparr>))) = []
   \<and> successful (run env (w\<lparr>files := []\<rparr>)) = 0
   \<and> failed (run env (w\<lparr>files := []\<rparr>)) = 0"
  by (simp add: run_def)


section \<open>Removing from the queue\<close>

text \<open>
  C8. Removing paths of which none is in the queue leaves the queue as it is: the same
  entries in the same order. From a queue without duplicates, which is what additions
  build, the removal deletes exactly the selected paths that are present, keeps the order
  of the others, and leaves the queue without duplicates.
\<close>

theorem remove_absent_is_noop:
  "(set selected \<inter> set q = {} \<longrightarrow> remove_selected q selected = q)
   \<and> (distinct q \<longrightarrow> remove_selected q selected = filter (\<lambda>p. p \<notin> set selected) q
         \<and> distinct (remove_selected q selected))"
  by (simp add: remove_selected_def remove_step_filter remove_step_absent)

theorem remove_absent_is_noop_witness:
  "set [c_tar_gz] \<inter> set [a_wav, b_mp3] = {}
   \<and> remove_selected [a_wav, b_mp3] [c_tar_gz] = [a_wav, b_mp3]
   \<and> distinct [a_wav, b_mp3]
   \<and> remove_selected [a_wav, b_mp3] [a_wav, c_tar_gz] = [b_mp3]"
proof -
  have d: "distinct [a_wav, b_mp3]" by (simp add: example_paths_distinct)
  have e: "set [c_tar_gz] \<inter> set [a_wav, b_mp3] = {}" by (simp add: example_paths_distinct)
  show ?thesis
    using remove_absent_is_noop[of "[c_tar_gz]" "[a_wav, b_mp3]"]
      remove_absent_is_noop[of "[a_wav, c_tar_gz]" "[a_wav, b_mp3]"] d e
    by (simp add: example_paths_distinct)
qed


section \<open>The counters\<close>

text \<open>
  C9. Every attempted item adds one to exactly one of the two counters; an expired
  timeout and any other exception add to \<open>failed\<close>. So in every run the two counters of
  the summary add up to the number of calls of the external process, the items
  attempted, and the summary notification is emitted once, with these counters.
\<close>

theorem counters_cover_attempted:
  "successful (run env w) + failed (run env w) = int (length (invocations (trace (run env w))))
   \<and> summaries (trace (run env w)) = [(successful (run env w), failed (run env w))]
   \<and> ((successful (process_file env w t i f st) = successful st + 1
          \<and> failed (process_file env w t i f st) = failed st)
        \<or> (successful (process_file env w t i f st) = successful st
          \<and> failed (process_file env w t i f st) = failed st + 1))
   \<and> successful (handle_result fn TimeoutExpired st) = successful st
   \<and> failed (handle_result fn TimeoutExpired st) = failed st + 1
   \<and> successful (handle_result fn (Raised e) st) = successful st
   \<and> failed (handle_result fn (Raised e) st) = failed st + 1"
proof -
  have a: "successful (run env w) + failed (run env w)
             = int (length (invocations (trace (run env w))))"
    by (simp add: counters_run invocations_run)
  have b: "(successful (process_file env w t i f st) = successful st + 1
          \<and> failed (process_file env w t i f st) = failed st)
        \<or> (successful (process_file env w t i f st) = successful st
          \<and> failed (process_file env w t i f st) = failed st + 1)"
    by (simp add: process_file_def handle_result_def Let_def split: run_result.split)
  have c: "successful (handle_result fn TimeoutExpired st) = successful st
     \<and> failed (handle_result fn TimeoutExpired st) = failed st + 1
     \<and> successful (handle_result fn (Raised e) st) = successful st
     \<and> failed (handle_result fn (Raised e) st) = failed st + 1"
    by (simp add: handle_result_def)
  from a b c summaries_run[of env w] show ?thesis by blast
qed


section \<open>Progress indices\<close>

text \<open>
  C10. The progress notification for the item at index \<open>i\<close> (counted from 0) comes
  right before the call for that item and carries \<open>(i, total)\<close>, with \<open>total\<close> the
  length of the snapshot throughout; the last progress notification carries
  \<open>(total, total)\<close>. The indices are strictly increasing in every run, and a run of \<open>N\<close>
  items in which no cancellation is observed emits the indices \<open>0, 1, ..., N - 1, N\<close>.
\<close>

theorem progress_indices:
  "milestones (trace (run env w)) =
     concat (map (\<lambda>j. [Progress (int j) (int (length (files w)))
                          (''Processing: '' @ name (files w ! j)),
                        SubprocessRun (argv w (files w ! j)) 600])
               [0..<reach env 0 (length (files w))])
     @ [Progress (int (length (files w))) (int (length (files w))) ''Complete'']
   \<and> map fst (progresses (trace (run env w))) =
       map int [0..<reach env 0 (length (files w))] @ [int (length (files w))]
   \<and> map (fst \<circ> snd) (progresses (trace (run env w))) =
       replicate (Suc (reach env 0 (length (files w)))) (int (length (files w)))
   \<and> sorted_wrt (<) (map fst (progresses (trace (run env w))))
   \<and> ((\<forall>j<length (files w). \<not> cancelled env j) \<longrightarrow>
        map fst (progresses (trace (run env w))) = map int [0..<Suc (length (files w))])"
proof -
  let ?n = "length (files w)"
  let ?k = "reach env 0 ?n"
  have a: "milestones (trace (run env w)) =
     concat (map (\<lambda>j. [Progress (int j) (int ?n) (''Processing: '' @ name (files w ! j)),
                        SubprocessRun (argv w (files w ! j)) 600]) [0..<?k])
     @ [Progress (int ?n) (int ?n) ''Complete'']"
    by (simp add: trace_run milestones_concat o_def cancel_log_def)
  have b: "map fst (progresses (trace (run env w))) = map int [0..<?k] @ [int ?n]"
    by (simp add: progresses_run o_def)
  have c: "map (fst \<circ> snd) (progresses (trace (run env w))) = replicate (Suc ?k) (int ?n)"
    by (simp add: progresses_run o_def map_replicate_const replicate_append_same)
  have le: "?k \<le> ?n" by (rule reach_le)
  have d: "sorted_wrt (<) (map fst (progresses (trace (run env w))))"
    unfolding b using le
    by (auto simp: sorted_wrt_append sorted_wrt_map)
  have e: "(\<forall>j<?n. \<not> cancelled env j) \<longrightarrow>
        map fst (progresses (trace (run env w))) = map int [0..<Suc ?n]"
  proof
    assume "\<forall>j<?n. \<not> cancelled env j"
    then have "?k = ?n" using reach_all[of ?n env 0] by simp
    then show "map fst (progresses (trace (run env w))) = map int [0..<Suc ?n]"
      by (simp add: b)
  qed
  from a b c d e show ?thesis by blast
qed

theorem progress_indices_witness:
  "(\<forall>j. \<not> cancelled env4 j)
   \<and> length (files worker4) = 4
   \<and> map fst (progresses (trace (run env4 worker4))) = [0, 1, 2, 3, 4]
   \<and> map (fst \<circ> snd) (progresses (trace (run env4 worker4))) = [4, 4, 4, 4, 4]"
proof -
  have r: "reach env4 0 4 = 4"
    by (rule reach_all) (simp add: env4_never_cancelled)
  have u: "map int [0..<4] = [0, 1, 2, 3]" by (simp add: upt_rec)
  have v: "replicate 5 (4::int) = [4, 4, 4, 4, 4]" by (simp add: numeral_eq_Suc)
  show ?thesis
    using progress_indices[of env4 worker4]
    by (simp add: files_worker4 env4_never_cancelled r u v)
qed

end
